theory Spec2Isabelle
  imports Main "HOL-Library.Word"
begin

section \<open>Task priorities (include/beehive/task.h)\<close>

text \<open>\<^verbatim>\<open>using Priority = uint8_t\<close> with its three named constants.\<close>

type_synonym Priority = "8 word"

definition MinPriority :: Priority where
  "MinPriority = 0"

definition DefaultPriority :: Priority where
  "DefaultPriority = 127"

definition MaxPriority :: Priority where
  "MaxPriority = 255"

section \<open>Text written by the stream inserters\<close>

text \<open>
  \<^verbatim>\<open>operator<<\<close> on an integer writes its decimal digits, with a leading minus sign
  for a negative value (the streams are never switched to another base or locale in
  worker.cpp).
\<close>

definition digit :: "nat \<Rightarrow> char" where
  "digit d = char_of (48 + d)"

function dec_nat :: "nat \<Rightarrow> string" where
  "dec_nat n = (if n < 10 then [digit n] else dec_nat (n div 10) @ [digit (n mod 10)])"
  by pat_completeness auto
termination
  by (relation "measure (\<lambda>n. n)") auto

declare dec_nat.simps [simp del]

definition dec_int :: "int \<Rightarrow> string" where
  "dec_int i = (if i < 0 then CHR ''-'' # dec_nat (nat (- i)) else dec_nat (nat i))"

text \<open>\<^verbatim>\<open>std::endl\<close> writes a newline (and flushes).\<close>

definition endl :: string where
  "endl = [CHR 0x0A]"

section \<open>C strings\<close>

text \<open>
  A \<^verbatim>\<open>const char*\<close> is \<open>None\<close> for \<^verbatim>\<open>nullptr\<close>, otherwise the characters stored from
  the address on; the string it denotes ends before the first NUL.
\<close>

definition NUL :: char where
  "NUL = CHR 0x00"

definition c_string :: "string \<Rightarrow> string" where
  "c_string bs = takeWhile (\<lambda>c. c \<noteq> NUL) bs"

section \<open>The clock, the error stream and the surroundings of a worker\<close>

text \<open>
  Everything a worker acts on outside its own members: the readings the steady clock will
  give, one per read; the pieces written to \<^verbatim>\<open>std::cerr\<close>, in order; and \<open>env\<close>, the parent
  pool together with whatever the tasks' callables touch.
\<close>

record 'e World =
  clock :: "nat \<Rightarrow> int"
  reads :: nat
  cerr :: "string list"
  env :: 'e

definition now :: "'e World \<Rightarrow> int \<times> 'e World" where
  "now wd = (clock wd (reads wd), wd\<lparr>reads := Suc (reads wd)\<rparr>)"

section \<open>TimeCounter\<close>

text \<open>
  Modelled from the spec: the class TimeCounter (its header is not among the sources), which
  worker.cpp uses through \<^verbatim>\<open>start()\<close>, \<^verbatim>\<open>stop()\<close> and \<^verbatim>\<open>value()\<close>. The spec gives it a
  cumulative duration and an interval start marker that is present or absent; \<^verbatim>\<open>stop()\<close>
  adds the elapsed interval to the duration and clears the marker; \<^verbatim>\<open>value()\<close> is the
  duration plus the interval that is still open, if there is one. Durations are counted in
  milliseconds.
\<close>

record TimeCounter =
  mTotal :: int
  mStart :: "int option"

definition TimeCounter_init :: TimeCounter where
  "TimeCounter_init = \<lparr>mTotal = 0, mStart = None\<rparr>"

definition tc_start :: "TimeCounter \<Rightarrow> 'e World \<Rightarrow> TimeCounter \<times> 'e World" where
  "tc_start c wd = (let (t, wd') = now wd in (c\<lparr>mStart := Some t\<rparr>, wd'))"

definition tc_stop :: "TimeCounter \<Rightarrow> 'e World \<Rightarrow> TimeCounter \<times> 'e World" where
  "tc_stop c wd =
     (case mStart c of
        None \<Rightarrow> (c, wd)
      | Some s \<Rightarrow> (let (t, wd') = now wd in (\<lparr>mTotal = mTotal c + (t - s), mStart = None\<rparr>, wd')))"

definition tc_value :: "TimeCounter \<Rightarrow> 'e World \<Rightarrow> int \<times> 'e World" where
  "tc_value c wd =
     (case mStart c of
        None \<Rightarrow> (mTotal c, wd)
      | Some s \<Rightarrow> (let (t, wd') = now wd in (mTotal c + (t - s), wd')))"

section \<open>Worker statistics (src/worker.cpp)\<close>

text \<open>
  The two counters are atomic integers incremented with \<^verbatim>\<open>fetch_add(1)\<close>; their
  declaration is in worker.h, which is not among the sources, so their width \<open>'w\<close> is a
  parameter and they are read as unsigned. \<open>+\<close> on a word wraps around as
  \<^verbatim>\<open>fetch_add\<close> does.
\<close>

record (overloaded) 'w AtomicStats =
  mMessages :: "'w word"
  mRuns :: "'w word"
  mIdle :: TimeCounter
  mActive :: TimeCounter

text \<open>
  A snapshot: the two counters as they were loaded, and the two durations as counts of
  milliseconds (\<^verbatim>\<open>s.active.count()\<close>).
\<close>

record (overloaded) 'w Stats =
  messages :: "'w word"
  runs :: "'w word"
  idle :: int
  active :: int

text \<open>
  \<^verbatim>\<open>AtomicStats::AtomicStats() = default\<close>: the members take their initialisers, which are
  in worker.h; a new worker has counted nothing and neither timer runs (the spec's dump
  before any task runs shows a run count of 0).
\<close>

definition AtomicStats_init :: "'w::len AtomicStats" where
  "AtomicStats_init =
     \<lparr>mMessages = 0, mRuns = 0, mIdle = TimeCounter_init, mActive = TimeCounter_init\<rparr>"

definition load :: "'w::len AtomicStats \<Rightarrow> 'e World \<Rightarrow> 'w Stats \<times> 'e World" where
  "load a wd =
     (let (i, wd1) = tc_value (mIdle a) wd;
          (c, wd2) = tc_value (mActive a) wd1
      in (\<lparr>messages = mMessages a, runs = mRuns a, idle = i, active = c\<rparr>, wd2))"

definition message :: "'w::len AtomicStats \<Rightarrow> 'w AtomicStats" where
  "message a = a\<lparr>mMessages := mMessages a + 1\<rparr>"

definition run :: "'w::len AtomicStats \<Rightarrow> 'w AtomicStats" where
  "run a = a\<lparr>mRuns := mRuns a + 1\<rparr>"

text \<open>\<^verbatim>\<open>Stats::operator==\<close> and \<^verbatim>\<open>Stats::operator!=\<close>.\<close>

definition Stats_eq :: "'w::len Stats \<Rightarrow> 'w Stats \<Rightarrow> bool" where
  "Stats_eq lhs rhs \<longleftrightarrow>
     messages lhs = messages rhs \<and> runs lhs = runs rhs \<and>
     idle lhs = idle rhs \<and> active lhs = active rhs"

definition Stats_neq :: "'w::len Stats \<Rightarrow> 'w Stats \<Rightarrow> bool" where
  "Stats_neq lhs rhs \<longleftrightarrow> \<not> Stats_eq lhs rhs"

section \<open>The worker (src/worker.cpp)\<close>

datatype Kind = NOP | EXIT | TASK | DUMP

text \<open>A message has no payload beyond its kind and is built from the kind implicitly.\<close>

type_synonym Message = Kind

datatype Result = CONTINUE | FINISH

text \<open>
  The life of \<^verbatim>\<open>mWorkThread\<close>: default-constructed; created and about to enter
  \<^verbatim>\<open>WorkLoop\<close>; inside the mailbox loop; returned from \<^verbatim>\<open>WorkLoop\<close>; joined.
\<close>

datatype Thread = NoThread | Spawned | Looping | Returned | Joined

text \<open>
  \<^verbatim>\<open>mParent\<close> is a pointer to the pool, which lives in \<open>env\<close>. \<open>mMsgQueue\<close> holds the
  messages sent and not yet received, oldest first.
\<close>

record (overloaded) 'w Worker =
  mId :: int
  mName :: string
  mStats :: "'w AtomicStats"
  mMsgQueue :: "Message list"
  mWorkThread :: Thread

definition default_name :: "int \<Rightarrow> string" where
  "default_name i = ''worker['' @ dec_int i @ '']''"

text \<open>\<^verbatim>\<open>const char* Worker::name() const\<close>: the address of the stored, terminated name.\<close>

definition name :: "'w::len Worker \<Rightarrow> string option" where
  "name w = Some (mName w @ [NUL])"

text \<open>\<^verbatim>\<open>void Worker::name(const char* n)\<close>.\<close>

definition set_name :: "string option \<Rightarrow> 'w::len Worker \<Rightarrow> 'w Worker" where
  "set_name n w =
     (if n \<noteq> None \<and> (case the n of [] \<Rightarrow> False | c # _ \<Rightarrow> c \<noteq> NUL)
      then w\<lparr>mName := c_string (the n)\<rparr>
      else w\<lparr>mName := default_name (mId w)\<rparr>)"

definition id_of :: "'w::len Worker \<Rightarrow> int" where
  "id_of w = mId w"

definition onBeforeMessage :: "'w::len Worker \<Rightarrow> 'e World \<Rightarrow> 'w Worker \<times> 'e World" where
  "onBeforeMessage w wd =
     (let (i, wd1) = tc_stop (mIdle (mStats w)) wd;
          (a, wd2) = tc_start (mActive (mStats w)) wd1
      in (w\<lparr>mStats := message ((mStats w)\<lparr>mIdle := i, mActive := a\<rparr>)\<rparr>, wd2))"

definition onAfterMessage :: "'w::len Worker \<Rightarrow> 'e World \<Rightarrow> 'w Worker \<times> 'e World" where
  "onAfterMessage w wd =
     (let (a, wd1) = tc_stop (mActive (mStats w)) wd;
          (i, wd2) = tc_start (mIdle (mStats w)) wd1
      in (w\<lparr>mStats := (mStats w)\<lparr>mActive := a, mIdle := i\<rparr>\<rparr>, wd2))"

definition onNop :: "'w::len Worker \<Rightarrow> 'e World \<Rightarrow> Result \<times> 'w Worker \<times> 'e World" where
  "onNop w wd = (CONTINUE, w, wd)"

definition onExit :: "'w::len Worker \<Rightarrow> 'e World \<Rightarrow> Result \<times> 'w Worker \<times> 'e World" where
  "onExit w wd = (FINISH, w, wd)"

text \<open>
  \<^verbatim>\<open>Pool::task()\<close> and \<^verbatim>\<open>Task::run()\<close> are not among the sources; \<open>onTask\<close> takes them
  as parameters: \<open>pull\<close> claims a pending task from the pool in \<open>env\<close>, or none, and
  \<open>exec\<close> is the effect of running a task.
\<close>

definition onTask ::
  "('e \<Rightarrow> 't option \<times> 'e) \<Rightarrow> ('t \<Rightarrow> 'e \<Rightarrow> 'e) \<Rightarrow>
   'w::len Worker \<Rightarrow> 'e World \<Rightarrow> Result \<times> 'w Worker \<times> 'e World" where
  "onTask pull exec w wd =
     (case pull (env wd) of
        (None, e) \<Rightarrow> (CONTINUE, w, wd\<lparr>env := e\<rparr>)
      | (Some task, e) \<Rightarrow> (CONTINUE, w\<lparr>mStats := run (mStats w)\<rparr>, wd\<lparr>env := exec task e\<rparr>))"

definition stats :: "'w::len Worker \<Rightarrow> 'e World \<Rightarrow> 'w Stats \<times> 'e World" where
  "stats w wd = load (mStats w) wd"

text \<open>The pieces \<open>onDump\<close> inserts into \<^verbatim>\<open>std::cerr\<close>, one per \<^verbatim>\<open><<\<close>.\<close>

definition dump_record :: "string \<Rightarrow> 'w::len Stats \<Rightarrow> string list" where
  "dump_record nm s =
     [''Thread: '', nm, endl,
      ''Number of tasks ran: '', dec_nat (unat (runs s)), endl,
      ''Number of messages processed: '', dec_nat (unat (messages s)), endl,
      ''Time active: '', dec_int (active s), '' milliseconds'', endl,
      ''Time idle: '', dec_int (idle s), '' milliseconds'', endl]"

text \<open>
  \<open>onDump\<close> takes its snapshot, locks \<^verbatim>\<open>gDumpMutex\<close>, writes the record and unlocks on
  return. Here it runs alone and finds the mutex free; \<open>dump_move\<close> below takes the same
  steps one at a time, for several threads.
\<close>

definition onDump :: "'w::len Worker \<Rightarrow> 'e World \<Rightarrow> Result \<times> 'w Worker \<times> 'e World" where
  "onDump w wd =
     (let (s, wd1) = stats w wd
      in (CONTINUE, w, wd1\<lparr>cerr := cerr wd1 @ dump_record (c_string (the (name w))) s\<rparr>))"

section \<open>The mailbox and its dispatch loop\<close>

text \<open>
  Modelled from the spec: SignalingQueue (beehive/mq.h is not among the sources). \<^verbatim>\<open>send\<close>
  enqueues a message, and messages are delivered in send order; \<^verbatim>\<open>loop\<close> repeatedly
  blocks until a message is available, dequeues exactly one and dispatches it to the handler
  method matching its kind; immediately before a dispatch it calls \<^verbatim>\<open>onBeforeMessage\<close>,
  immediately after the dispatch returns it calls \<^verbatim>\<open>onAfterMessage\<close> unless the result
  was FINISH, in which case it returns.
\<close>

definition mq_send :: "Message \<Rightarrow> Message list \<Rightarrow> Message list" where
  "mq_send m q = q @ [m]"

fun dispatch ::
  "('e \<Rightarrow> 't option \<times> 'e) \<Rightarrow> ('t \<Rightarrow> 'e \<Rightarrow> 'e) \<Rightarrow> Message \<Rightarrow>
   'w::len Worker \<Rightarrow> 'e World \<Rightarrow> Result \<times> 'w Worker \<times> 'e World" where
  "dispatch pull exec NOP w wd = onNop w wd"
| "dispatch pull exec EXIT w wd = onExit w wd"
| "dispatch pull exec TASK w wd = onTask pull exec w wd"
| "dispatch pull exec DUMP w wd = onDump w wd"

text \<open>
  \<open>mq_loop\<close> runs the loop over the messages \<open>ms\<close> delivered to it, oldest first. It
  returns the messages left in the queue, FINISH when a handler ended the loop (CONTINUE when
  the queue ran empty and the loop is blocked waiting), and the worker and its surroundings
  at that moment.
\<close>

fun mq_loop ::
  "('e \<Rightarrow> 't option \<times> 'e) \<Rightarrow> ('t \<Rightarrow> 'e \<Rightarrow> 'e) \<Rightarrow> Message list \<Rightarrow>
   'w::len Worker \<Rightarrow> 'e World \<Rightarrow> Message list \<times> Result \<times> 'w Worker \<times> 'e World" where
  "mq_loop pull exec [] w wd = ([], CONTINUE, w, wd)"
| "mq_loop pull exec (m # ms) w wd =
     (let (w1, wd1) = onBeforeMessage w wd;
          (r, w2, wd2) = dispatch pull exec m w1 wd1
      in if r = FINISH then (ms, FINISH, w2, wd2)
         else (let (w3, wd3) = onAfterMessage w2 wd2 in mq_loop pull exec ms w3 wd3))"

text \<open>
  The same loop, recording the worker at each point it passes: after \<open>onBeforeMessage\<close>,
  after the handler (with the message and the handler's result), after \<open>onAfterMessage\<close>.
\<close>

datatype Point = Before | Handled Message Result | After

fun mq_loop_trace ::
  "('e \<Rightarrow> 't option \<times> 'e) \<Rightarrow> ('t \<Rightarrow> 'e \<Rightarrow> 'e) \<Rightarrow> Message list \<Rightarrow>
   'w::len Worker \<Rightarrow> 'e World \<Rightarrow> (Point \<times> 'w Worker) list" where
  "mq_loop_trace pull exec [] w wd = []"
| "mq_loop_trace pull exec (m # ms) w wd =
     (let (w1, wd1) = onBeforeMessage w wd;
          (r, w2, wd2) = dispatch pull exec m w1 wd1
      in if r = FINISH then [(Before, w1), (Handled m r, w2)]
         else (let (w3, wd3) = onAfterMessage w2 wd2
               in [(Before, w1), (Handled m r, w2), (After, w3)] @
                  mq_loop_trace pull exec ms w3 wd3))"

section \<open>The worker's thread, construction and destruction (src/worker.cpp)\<close>

text \<open>The first statement of \<^verbatim>\<open>WorkLoop\<close>: the idle timer is started, then the loop is entered.\<close>

definition enter_loop :: "'w::len Worker \<Rightarrow> 'e World \<Rightarrow> 'w Worker \<times> 'e World" where
  "enter_loop w wd =
     (let (i, wd1) = tc_start (mIdle (mStats w)) wd
      in (w\<lparr>mStats := (mStats w)\<lparr>mIdle := i\<rparr>, mWorkThread := Looping\<rparr>, wd1))"

text \<open>
  \<^verbatim>\<open>mMsgQueue.loop(this)\<close> on the messages in the mailbox: the thread has returned when the
  loop saw FINISH, and is still in the loop, waiting, when the mailbox ran empty.
\<close>

definition in_loop ::
  "('e \<Rightarrow> 't option \<times> 'e) \<Rightarrow> ('t \<Rightarrow> 'e \<Rightarrow> 'e) \<Rightarrow>
   'w::len Worker \<Rightarrow> 'e World \<Rightarrow> 'w Worker \<times> 'e World" where
  "in_loop pull exec w wd =
     (let (rest, r, w', wd') = mq_loop pull exec (mMsgQueue w) w wd
      in (w'\<lparr>mMsgQueue := rest, mWorkThread := (if r = FINISH then Returned else Looping)\<rparr>, wd'))"

definition WorkLoop ::
  "('e \<Rightarrow> 't option \<times> 'e) \<Rightarrow> ('t \<Rightarrow> 'e \<Rightarrow> 'e) \<Rightarrow>
   'w::len Worker \<Rightarrow> 'e World \<Rightarrow> 'w Worker \<times> 'e World" where
  "WorkLoop pull exec w wd = (let (w1, wd1) = enter_loop w wd in in_loop pull exec w1 wd1)"

text \<open>
  \<^verbatim>\<open>Worker::Worker(Pool* parent, int id)\<close>: the members are initialised, the default name
  is assigned, and the thread whose body is \<^verbatim>\<open>WorkLoop\<close> is created.
\<close>

definition Worker_init :: "int \<Rightarrow> 'w::len Worker" where
  "Worker_init i =
     \<lparr>mId = i, mName = [], mStats = AtomicStats_init, mMsgQueue = [], mWorkThread = NoThread\<rparr>"

definition Worker_ctor :: "int \<Rightarrow> 'w::len Worker" where
  "Worker_ctor i = (set_name None (Worker_init i))\<lparr>mWorkThread := Spawned\<rparr>"

text \<open>
  What the worker's thread does from where it stands until it returns or waits on an empty
  mailbox.
\<close>

definition thread_run ::
  "('e \<Rightarrow> 't option \<times> 'e) \<Rightarrow> ('t \<Rightarrow> 'e \<Rightarrow> 'e) \<Rightarrow>
   'w::len Worker \<Rightarrow> 'e World \<Rightarrow> 'w Worker \<times> 'e World" where
  "thread_run pull exec w wd =
     (case mWorkThread w of
        Spawned \<Rightarrow> WorkLoop pull exec w wd
      | Looping \<Rightarrow> in_loop pull exec w wd
      | _ \<Rightarrow> (w, wd))"

text \<open>
  \<^verbatim>\<open>mWorkThread.join()\<close> returns once the thread has returned from \<^verbatim>\<open>WorkLoop\<close>;
  \<open>None\<close> stands for a join that does not return: the thread waits on an empty mailbox
  for ever (or there is no thread to join).
\<close>

definition join ::
  "('e \<Rightarrow> 't option \<times> 'e) \<Rightarrow> ('t \<Rightarrow> 'e \<Rightarrow> 'e) \<Rightarrow>
   'w::len Worker \<Rightarrow> 'e World \<Rightarrow> ('w Worker \<times> 'e World) option" where
  "join pull exec w wd =
     (let (w', wd') = thread_run pull exec w wd
      in if mWorkThread w' = Returned then Some (w'\<lparr>mWorkThread := Joined\<rparr>, wd') else None)"

definition send :: "Message \<Rightarrow> 'w::len Worker \<Rightarrow> 'w Worker" where
  "send m w = w\<lparr>mMsgQueue := mq_send m (mMsgQueue w)\<rparr>"

definition exit :: "'w::len Worker \<Rightarrow> 'w Worker" where
  "exit w = send EXIT w"

definition task :: "'w::len Worker \<Rightarrow> 'w Worker" where
  "task w = send TASK w"

definition dump :: "'w::len Worker \<Rightarrow> 'w Worker" where
  "dump w = send DUMP w"

text \<open>\<^verbatim>\<open>Worker::~Worker()\<close>: \<^verbatim>\<open>exit(); mWorkThread.join();\<close>\<close>

definition Worker_dtor ::
  "('e \<Rightarrow> 't option \<times> 'e) \<Rightarrow> ('t \<Rightarrow> 'e \<Rightarrow> 'e) \<Rightarrow>
   'w::len Worker \<Rightarrow> 'e World \<Rightarrow> ('w Worker \<times> 'e World) option" where
  "Worker_dtor pull exec w wd = join pull exec (exit w) wd"


section \<open>The statistics state machine\<close>

text \<open>
  The spec's states, read off the two timers: a worker is idle when its idle timer runs and
  its active timer does not, and active the other way round.
\<close>

definition is_idle :: "'w::len Worker \<Rightarrow> bool" where
  "is_idle w \<longleftrightarrow> mStart (mIdle (mStats w)) \<noteq> None \<and> mStart (mActive (mStats w)) = None"

definition is_active :: "'w::len Worker \<Rightarrow> bool" where
  "is_active w \<longleftrightarrow> mStart (mIdle (mStats w)) = None \<and> mStart (mActive (mStats w)) \<noteq> None"

text \<open>
  The spec's transitions, as a check of a recorded run that starts at worker \<open>w\<close>: every
  message takes the worker from idle to active with one more counted message, it stays
  active through the handler, and it goes back to idle afterwards unless the handler
  returned FINISH, which ends the run with the worker still active.
\<close>

fun machine :: "'w::len Worker \<Rightarrow> (Point \<times> 'w Worker) list \<Rightarrow> bool" where
  "machine w [] = is_idle w"
| "machine w ((Before, w1) # (Handled m r, w2) # tr) =
     (is_idle w \<and> is_active w1 \<and> mMessages (mStats w1) = mMessages (mStats w) + 1 \<and>
      is_active w2 \<and> (r = FINISH) = (m = EXIT) \<and>
      (case tr of
         [] \<Rightarrow> r = FINISH
       | (After, w3) # tr' \<Rightarrow> r = CONTINUE \<and> machine w3 tr'
       | _ \<Rightarrow> False))"
| "machine w _ = False"

text \<open>Neither counter of \<open>a\<close> is above the same counter of \<open>b\<close>.\<close>

definition counters_le :: "'w::len Worker \<Rightarrow> 'w Worker \<Rightarrow> bool" where
  "counters_le a b \<longleftrightarrow>
     mMessages (mStats a) \<le> mMessages (mStats b) \<and> mRuns (mStats a) \<le> mRuns (mStats b)"

text \<open>
  \<^verbatim>\<open>AtomicStats::load\<close> when another thread calls \<open>stats()\<close> while the worker's thread
  goes on: the four reads of \<open>load\<close>, in its order, find the worker's statistics as they
  are at four successive moments, \<open>a\<close>, \<open>b\<close>, \<open>c\<close> and \<open>d\<close>.
\<close>

definition load_during ::
  "'w::len AtomicStats \<Rightarrow> 'w AtomicStats \<Rightarrow> 'w AtomicStats \<Rightarrow> 'w AtomicStats \<Rightarrow>
   'e World \<Rightarrow> 'w Stats \<times> 'e World" where
  "load_during a b c d wd =
     (let (i, wd1) = tc_value (mIdle c) wd;
          (k, wd2) = tc_value (mActive d) wd1
      in (\<lparr>messages = mMessages a, runs = mRuns b, idle = i, active = k\<rparr>, wd2))"

text \<open>
  The worker at each point of \<^verbatim>\<open>WorkLoop\<close>, in order: once the idle timer is started, then
  at each point of the loop over the messages in its mailbox.
\<close>

definition WorkLoop_points ::
  "('e \<Rightarrow> 't option \<times> 'e) \<Rightarrow> ('t \<Rightarrow> 'e \<Rightarrow> 'e) \<Rightarrow>
   'w::len Worker \<Rightarrow> 'e World \<Rightarrow> 'w Worker list" where
  "WorkLoop_points pull exec w wd =
     (let (w0, wd0) = enter_loop w wd
      in w0 # map snd (mq_loop_trace pull exec (mMsgQueue w) w0 wd0))"

text \<open>
  \<open>stats()\<close> called by another thread whose four reads fall at the points \<open>i\<close>, \<open>j\<close>,
  \<open>k\<close> and \<open>l\<close> of the worker's run (\<open>i \<le> j \<le> k \<le> l\<close>, all within the run).
\<close>

definition stats_during ::
  "'w::len Worker list \<Rightarrow> nat \<Rightarrow> nat \<Rightarrow> nat \<Rightarrow> nat \<Rightarrow> 'e World \<Rightarrow> 'w Stats \<times> 'e World" where
  "stats_during ws i j k l wd =
     load_during (mStats (ws ! i)) (mStats (ws ! j)) (mStats (ws ! k)) (mStats (ws ! l)) wd"

section \<open>Dumps from several workers at once\<close>

text \<open>
  \<^verbatim>\<open>static std::mutex gDumpMutex\<close> is one mutex for the whole process, local to worker.cpp.
  Each worker's thread runs its own \<open>onDump\<close>; a schedule says, move by move, whose thread
  goes next. Inside \<open>onDump\<close> a thread that has taken its snapshot waits for the mutex, then
  writes the pieces of its record one \<^verbatim>\<open><<\<close> at a time, and releases the mutex on return.
  \<^verbatim>\<open>Worker::send\<close> goes to the mailbox and never touches the mutex.

  \<open>stream\<close> is \<^verbatim>\<open>std::cerr\<close>, each piece tagged with the worker that wrote it and the
  number of that worker's dump; \<open>pos\<close> is 0 for a worker outside the critical section and
  \<open>Suc k\<close> for the one that holds the mutex and has written \<open>k\<close> pieces; \<open>finished\<close> counts
  each worker's completed dumps.
\<close>

record Dumping =
  gDumpMutex :: "nat option"
  stream :: "(nat \<times> nat \<times> string) list"
  pos :: "nat \<Rightarrow> nat"
  finished :: "nat \<Rightarrow> nat"
  mailbox :: "nat \<Rightarrow> Message list"

definition Dumping_init :: Dumping where
  "Dumping_init =
     \<lparr>gDumpMutex = None, stream = [], pos = (\<lambda>_. 0), finished = (\<lambda>_. 0), mailbox = (\<lambda>_. [])\<rparr>"

datatype Move = InDump nat | Send nat Message

text \<open>
  \<open>snap t n\<close> is the name and the \<open>stats()\<close> snapshot worker \<open>t\<close> has when it handles its
  \<open>n\<close>-th DUMP.
\<close>

definition pieces :: "(nat \<Rightarrow> nat \<Rightarrow> string \<times> 'w::len Stats) \<Rightarrow> nat \<Rightarrow> nat \<Rightarrow> string list" where
  "pieces snap t n = dump_record (fst (snap t n)) (snd (snap t n))"

fun dump_move :: "(nat \<Rightarrow> nat \<Rightarrow> string \<times> 'w::len Stats) \<Rightarrow> Move \<Rightarrow> Dumping \<Rightarrow> Dumping" where
  "dump_move snap (Send t m) g = g\<lparr>mailbox := (mailbox g)(t := mq_send m (mailbox g t))\<rparr>"
| "dump_move snap (InDump t) g =
     (case pos g t of
        0 \<Rightarrow> (if gDumpMutex g = None then g\<lparr>gDumpMutex := Some t, pos := (pos g)(t := 1)\<rparr> else g)
      | Suc k \<Rightarrow>
          (if k < length (pieces snap t (finished g t))
           then g\<lparr>stream := stream g @ [(t, finished g t, pieces snap t (finished g t) ! k)],
                  pos := (pos g)(t := Suc (Suc k))\<rparr>
           else g\<lparr>gDumpMutex := None, pos := (pos g)(t := 0),
                  finished := (finished g)(t := Suc (finished g t))\<rparr>))"

fun dump_run :: "(nat \<Rightarrow> nat \<Rightarrow> string \<times> 'w::len Stats) \<Rightarrow> Move list \<Rightarrow> Dumping \<Rightarrow> Dumping" where
  "dump_run snap [] g = g"
| "dump_run snap (m # ms) g = dump_run snap ms (dump_move snap m g)"



section \<open>Handler results\<close>

lemma onTask_result: "fst (onTask pull exec w wd) = CONTINUE"
  by (simp add: onTask_def split: prod.split option.split)

lemma onDump_result: "fst (onDump w wd) = CONTINUE"
  by (simp add: onDump_def split: prod.split)

text \<open>
  C4. Whatever the worker and its surroundings are, \<open>onNop\<close> returns CONTINUE, \<open>onExit\<close>
  returns FINISH, \<open>onTask\<close> returns CONTINUE both when the pull gave a task and when it
  gave none, and \<open>onDump\<close> returns CONTINUE.
\<close>

theorem handler_results:
  "fst (onNop w wd) = CONTINUE \<and>
   fst (onExit w wd) = FINISH \<and>
   fst (onTask pull exec w wd) = CONTINUE \<and>
   fst (onDump w wd) = CONTINUE"
  by (simp add: onNop_def onExit_def onTask_result onDump_result)

section \<open>Effects of the handlers on the statistics\<close>

lemma tc_start_started: "mStart (fst (tc_start c wd)) \<noteq> None"
  by (simp add: tc_start_def now_def)

lemma tc_stop_stopped: "mStart (fst (tc_stop c wd)) = None"
  by (simp add: tc_stop_def now_def split: option.split)

lemma onBeforeMessage_stats:
  "mMessages (mStats (fst (onBeforeMessage w wd))) = mMessages (mStats w) + 1 \<and>
   mRuns (mStats (fst (onBeforeMessage w wd))) = mRuns (mStats w) \<and>
   mIdle (mStats (fst (onBeforeMessage w wd))) = fst (tc_stop (mIdle (mStats w)) wd) \<and>
   mActive (mStats (fst (onBeforeMessage w wd))) =
     fst (tc_start (mActive (mStats w)) (snd (tc_stop (mIdle (mStats w)) wd)))"
  by (simp add: onBeforeMessage_def message_def split: prod.split)

lemma onAfterMessage_stats:
  "mMessages (mStats (fst (onAfterMessage w wd))) = mMessages (mStats w) \<and>
   mRuns (mStats (fst (onAfterMessage w wd))) = mRuns (mStats w) \<and>
   mActive (mStats (fst (onAfterMessage w wd))) = fst (tc_stop (mActive (mStats w)) wd) \<and>
   mIdle (mStats (fst (onAfterMessage w wd))) =
     fst (tc_start (mIdle (mStats w)) (snd (tc_stop (mActive (mStats w)) wd)))"
  by (simp add: onAfterMessage_def split: prod.split)

lemma onBeforeMessage_active: "is_active (fst (onBeforeMessage w wd))"
  by (simp add: is_active_def onBeforeMessage_stats tc_start_started tc_stop_stopped)

lemma onAfterMessage_idle: "is_idle (fst (onAfterMessage w wd))"
  by (simp add: is_idle_def onAfterMessage_stats tc_start_started tc_stop_stopped)

lemma onTask_stats:
  "mMessages (mStats (fst (snd (onTask pull exec w wd)))) = mMessages (mStats w) \<and>
   mIdle (mStats (fst (snd (onTask pull exec w wd)))) = mIdle (mStats w) \<and>
   mActive (mStats (fst (snd (onTask pull exec w wd)))) = mActive (mStats w) \<and>
   mRuns (mStats (fst (snd (onTask pull exec w wd)))) =
     (if fst (pull (env wd)) = None then mRuns (mStats w) else mRuns (mStats w) + 1)"
  by (simp add: onTask_def run_def split: prod.split option.split)

lemma dispatch_result: "fst (dispatch pull exec m w wd) = (if m = EXIT then FINISH else CONTINUE)"
  by (cases m) (simp_all add: onNop_def onExit_def onTask_result onDump_result)

lemma dispatch_stats:
  "mMessages (mStats (fst (snd (dispatch pull exec m w wd)))) = mMessages (mStats w) \<and>
   mIdle (mStats (fst (snd (dispatch pull exec m w wd)))) = mIdle (mStats w) \<and>
   mActive (mStats (fst (snd (dispatch pull exec m w wd)))) = mActive (mStats w) \<and>
   mRuns (mStats (fst (snd (dispatch pull exec m w wd)))) =
     (if m = TASK \<and> fst (pull (env wd)) \<noteq> None then mRuns (mStats w) + 1 else mRuns (mStats w))"
  by (cases m) (simp_all add: onNop_def onExit_def onTask_stats onDump_def split: prod.split)

lemma dispatch_active: "is_active w \<Longrightarrow> is_active (fst (snd (dispatch pull exec m w wd)))"
  by (simp add: is_active_def dispatch_stats)


lemma Worker_ctor_members:
  "mId (Worker_ctor i) = i \<and> mName (Worker_ctor i) = default_name i \<and>
   mStats (Worker_ctor i) = AtomicStats_init \<and> mMsgQueue (Worker_ctor i) = [] \<and>
   mWorkThread (Worker_ctor i) = Spawned"
  by (simp add: Worker_ctor_def Worker_init_def set_name_def)

section \<open>Equality of snapshots\<close>

lemma Stats_eq_iff: "Stats_eq s1 s2 \<longleftrightarrow> s1 = s2"
  by (cases s1; cases s2) (auto simp: Stats_eq_def)

text \<open>
  C8. For all snapshots \<open>s1\<close> and \<open>s2\<close>, \<open>s1 == s2\<close> holds exactly when the four fields
  messages, runs, idle and active are pairwise equal, that is, when the snapshots are the
  same; \<open>s1 != s2\<close> is the negation of \<open>s1 == s2\<close>; and \<open>==\<close> is an equivalence relation
  on snapshots.
\<close>

theorem Stats_eq_fieldwise:
  fixes s1 s2 :: "'w::len Stats"
  shows "(Stats_eq s1 s2 \<longleftrightarrow>
            messages s1 = messages s2 \<and> runs s1 = runs s2 \<and>
            idle s1 = idle s2 \<and> active s1 = active s2) \<and>
         (Stats_eq s1 s2 \<longleftrightarrow> s1 = s2) \<and>
         (Stats_neq s1 s2 \<longleftrightarrow> \<not> Stats_eq s1 s2) \<and>
         equivp (Stats_eq :: 'w Stats \<Rightarrow> 'w Stats \<Rightarrow> bool)"
proof -
  have "equivp (Stats_eq :: 'w Stats \<Rightarrow> 'w Stats \<Rightarrow> bool)"
    by (rule equivpI) (auto simp: reflp_def symp_def transp_def Stats_eq_iff)
  then show ?thesis
    by (simp add: Stats_eq_iff Stats_neq_def) (cases s1; cases s2; auto)
qed

section \<open>The worker's name\<close>

lemma dec_nat_digit: "n < 10 \<Longrightarrow> dec_nat n = [digit n]"
  by (subst dec_nat.simps) simp

lemma dec_nat_more: "10 \<le> n \<Longrightarrow> dec_nat n = dec_nat (n div 10) @ [digit (n mod 10)]"
  by (subst dec_nat.simps) simp

lemma digit_not_NUL: "d < 10 \<Longrightarrow> digit d \<noteq> NUL"
proof -
  assume "d < 10"
  then have "of_char (digit d) = (48 + d :: nat)"
    by (simp add: digit_def)
  moreover have "of_char NUL = (0::nat)" by (simp add: NUL_def)
  ultimately show ?thesis by auto
qed

lemma dec_nat_no_NUL: "NUL \<notin> set (dec_nat n)"
proof (induction n rule: dec_nat.induct)
  case (1 n)
  show ?case
  proof (cases "n < 10")
    case True
    then show ?thesis using digit_not_NUL [of n] by (simp add: dec_nat_digit)
  next
    case False
    then show ?thesis using 1 digit_not_NUL [of "n mod 10"] by (simp add: dec_nat_more)
  qed
qed

lemma default_name_no_NUL: "NUL \<notin> set (default_name i)"
  by (simp add: default_name_def dec_int_def dec_nat_no_NUL) (simp add: NUL_def)


lemma c_string_terminated: "NUL \<notin> set s \<Longrightarrow> c_string (s @ [NUL]) = s"
  by (induction s) (auto simp: c_string_def)





section \<open>Counting runs\<close>

text \<open>
  C2. \<open>onTask\<close> increments the run counter exactly when the pull from the pool returned a
  task, and that task is then run; when the pull is empty the run counter is unchanged, and
  handling the TASK message has counted one message through \<open>onBeforeMessage\<close>.
\<close>

theorem onTask_counts_claimed_tasks:
  "(mRuns (mStats (fst (snd (onTask pull exec w wd)))) = mRuns (mStats w) + 1
      \<longleftrightarrow> fst (pull (env wd)) \<noteq> None) \<and>
   (mRuns (mStats (fst (snd (onTask pull exec w wd)))) = mRuns (mStats w)
      \<longleftrightarrow> fst (pull (env wd)) = None) \<and>
   (\<forall>t e. pull (env wd) = (Some t, e) \<longrightarrow> env (snd (snd (onTask pull exec w wd))) = exec t e) \<and>
   (fst (pull (env wd)) = None \<longrightarrow>
      (\<exists>w1 w2 w3. mq_loop_trace pull exec [TASK] w wd =
          [(Before, w1), (Handled TASK CONTINUE, w2), (After, w3)] \<and>
        w1 = fst (onBeforeMessage w wd) \<and>
        mMessages (mStats w1) = mMessages (mStats w) + 1 \<and>
        mMessages (mStats w2) = mMessages (mStats w) + 1 \<and>
        mMessages (mStats w3) = mMessages (mStats w) + 1 \<and>
        mRuns (mStats w1) = mRuns (mStats w) \<and>
        mRuns (mStats w2) = mRuns (mStats w) \<and>
        mRuns (mStats w3) = mRuns (mStats w)))"
proof -
  have a: "mRuns (mStats (fst (snd (onTask pull exec w wd)))) = mRuns (mStats w) + 1
      \<longleftrightarrow> fst (pull (env wd)) \<noteq> None"
    by (simp add: onTask_stats)
  have b: "mRuns (mStats (fst (snd (onTask pull exec w wd)))) = mRuns (mStats w)
      \<longleftrightarrow> fst (pull (env wd)) = None"
    by (simp add: onTask_stats)
  have c: "\<forall>t e. pull (env wd) = (Some t, e) \<longrightarrow> env (snd (snd (onTask pull exec w wd))) = exec t e"
    by (simp add: onTask_def)
  have d: "fst (pull (env wd)) = None \<longrightarrow>
      (\<exists>w1 w2 w3. mq_loop_trace pull exec [TASK] w wd =
          [(Before, w1), (Handled TASK CONTINUE, w2), (After, w3)] \<and>
        w1 = fst (onBeforeMessage w wd) \<and>
        mMessages (mStats w1) = mMessages (mStats w) + 1 \<and>
        mMessages (mStats w2) = mMessages (mStats w) + 1 \<and>
        mMessages (mStats w3) = mMessages (mStats w) + 1 \<and>
        mRuns (mStats w1) = mRuns (mStats w) \<and>
        mRuns (mStats w2) = mRuns (mStats w) \<and>
        mRuns (mStats w3) = mRuns (mStats w))"
  proof
    assume n: "fst (pull (env wd)) = None"
    obtain w1 wd1 where b1: "onBeforeMessage w wd = (w1, wd1)" by (cases "onBeforeMessage w wd")
    have e1: "env wd1 = env wd" using b1
      by (auto simp: onBeforeMessage_def tc_stop_def tc_start_def now_def split: prod.splits option.splits)
    obtain r w2 wd2 where t: "onTask pull exec w1 wd1 = (r, w2, wd2)" by (cases "onTask pull exec w1 wd1")
    have r: "r = CONTINUE" using onTask_result [of pull exec w1 wd1] t by simp
    obtain w3 wd3 where a3: "onAfterMessage w2 wd2 = (w3, wd3)" by (cases "onAfterMessage w2 wd2")
    have tr: "mq_loop_trace pull exec [TASK] w wd = [(Before, w1), (Handled TASK CONTINUE, w2), (After, w3)]"
      by (simp add: b1 t r a3)
    have s1: "mMessages (mStats w1) = mMessages (mStats w) + 1 \<and> mRuns (mStats w1) = mRuns (mStats w)"
      using onBeforeMessage_stats [of w wd] b1 by simp
    have s2: "mMessages (mStats w2) = mMessages (mStats w1) \<and> mRuns (mStats w2) = mRuns (mStats w1)"
      using onTask_stats [of pull exec w1 wd1] t n e1 by simp
    have s3: "mMessages (mStats w3) = mMessages (mStats w2) \<and> mRuns (mStats w3) = mRuns (mStats w2)"
      using onAfterMessage_stats [of w2 wd2] a3 by simp
    show "\<exists>w1 w2 w3. mq_loop_trace pull exec [TASK] w wd =
          [(Before, w1), (Handled TASK CONTINUE, w2), (After, w3)] \<and>
        w1 = fst (onBeforeMessage w wd) \<and>
        mMessages (mStats w1) = mMessages (mStats w) + 1 \<and>
        mMessages (mStats w2) = mMessages (mStats w) + 1 \<and>
        mMessages (mStats w3) = mMessages (mStats w) + 1 \<and>
        mRuns (mStats w1) = mRuns (mStats w) \<and>
        mRuns (mStats w2) = mRuns (mStats w) \<and>
        mRuns (mStats w3) = mRuns (mStats w)"
      using tr s1 s2 s3 b1 by simp
  qed
  from a b c d show ?thesis by blast
qed

theorem onTask_counts_claimed_tasks_witness:
  "fst (case ([7::nat], [] :: nat list) of (q, l) \<Rightarrow>
          (case q of [] \<Rightarrow> (None, (q, l)) | t # ts \<Rightarrow> (Some t, (ts, l)))) \<noteq> None \<and>
   mRuns (mStats (fst (snd (onTask
       (\<lambda>(q, l). case q of [] \<Rightarrow> (None, (q, l)) | t # ts \<Rightarrow> (Some t, (ts, l)))
       (\<lambda>t (q, l). (q, l @ [t]))
       (Worker_ctor 0 :: 64 Worker)
       \<lparr>clock = (\<lambda>n. int n), reads = 0, cerr = [], env = ([7::nat], [] :: nat list)\<rparr>)))) = 1 \<and>
   env (snd (snd (onTask
       (\<lambda>(q, l). case q of [] \<Rightarrow> (None, (q, l)) | t # ts \<Rightarrow> (Some t, (ts, l)))
       (\<lambda>t (q, l). (q, l @ [t]))
       (Worker_ctor 0 :: 64 Worker)
       \<lparr>clock = (\<lambda>n. int n), reads = 0, cerr = [], env = ([7::nat], [] :: nat list)\<rparr>))) = ([], [7]) \<and>
   mRuns (mStats (fst (snd (onTask
       (\<lambda>(q, l). case q of [] \<Rightarrow> (None, (q, l)) | t # ts \<Rightarrow> (Some t, (ts, l)))
       (\<lambda>t (q, l). (q, l @ [t]))
       (Worker_ctor 0 :: 64 Worker)
       \<lparr>clock = (\<lambda>n. int n), reads = 0, cerr = [], env = ([] :: nat list, [] :: nat list)\<rparr>)))) = 0 \<and>
   map (\<lambda>(p, s). (p, mMessages (mStats s), mRuns (mStats s)))
     (mq_loop_trace
       (\<lambda>(q, l). case q of [] \<Rightarrow> (None, (q, l)) | t # ts \<Rightarrow> (Some t, (ts, l)))
       (\<lambda>t (q, l). (q, l @ [t]))
       [TASK] (Worker_ctor 0 :: 64 Worker)
       \<lparr>clock = (\<lambda>n. int n), reads = 0, cerr = [], env = ([] :: nat list, [] :: nat list)\<rparr>) =
     [(Before, 1, 0), (Handled TASK CONTINUE, 1, 0), (After, 1, 0)]"
proof -
  let ?pull = "\<lambda>(q :: nat list, l :: nat list). case q of [] \<Rightarrow> (None, (q, l)) | t # ts \<Rightarrow> (Some t, (ts, l))"
  let ?exec = "\<lambda>(t :: nat) (q :: nat list, l :: nat list). (q, l @ [t])"
  let ?w = "Worker_ctor 0 :: 64 Worker"
  let ?full = "\<lparr>clock = (\<lambda>n. int n), reads = 0, cerr = [], env = ([7::nat], [] :: nat list)\<rparr>"
  let ?empty = "\<lparr>clock = (\<lambda>n. int n), reads = 0, cerr = [], env = ([] :: nat list, [] :: nat list)\<rparr>"
  have z: "mRuns (mStats ?w) = 0 \<and> mMessages (mStats ?w) = 0"
    by (simp add: Worker_ctor_def Worker_init_def set_name_def AtomicStats_init_def)
  note f = onTask_counts_claimed_tasks [of ?pull ?exec ?w ?full]
  note e = onTask_counts_claimed_tasks [of ?pull ?exec ?w ?empty]
  have 1: "mRuns (mStats (fst (snd (onTask ?pull ?exec ?w ?full)))) = 1"
    using f z by simp
  have 2: "env (snd (snd (onTask ?pull ?exec ?w ?full))) = ([], [7])"
    using f by simp
  have 3: "mRuns (mStats (fst (snd (onTask ?pull ?exec ?w ?empty)))) = 0"
    using e z by simp
  from e obtain w1 w2 w3 where
    tr: "mq_loop_trace ?pull ?exec [TASK] ?w ?empty =
          [(Before, w1), (Handled TASK CONTINUE, w2), (After, w3)]"
    and c: "mMessages (mStats w1) = mMessages (mStats ?w) + 1"
      "mMessages (mStats w2) = mMessages (mStats ?w) + 1"
      "mMessages (mStats w3) = mMessages (mStats ?w) + 1"
      "mRuns (mStats w1) = mRuns (mStats ?w)"
      "mRuns (mStats w2) = mRuns (mStats ?w)"
      "mRuns (mStats w3) = mRuns (mStats ?w)"
    by auto
  have 4: "map (\<lambda>(p, s). (p, mMessages (mStats s), mRuns (mStats s)))
     (mq_loop_trace ?pull ?exec [TASK] ?w ?empty) =
     [(Before, 1, 0), (Handled TASK CONTINUE, 1, 0), (After, 1, 0)]"
    unfolding tr using c z by simp
  show ?thesis using 1 2 3 4 by simp
qed

section \<open>Monotone counters\<close>

lemma counters_le_refl: "counters_le w w"
  by (simp add: counters_le_def)

lemma counters_le_trans: "counters_le a b \<Longrightarrow> counters_le b c \<Longrightarrow> counters_le a c"
  by (auto simp: counters_le_def)

lemma word_succ_no_wrap:
  fixes x :: "'w::len word"
  assumes "unat x + 1 < 2 ^ LENGTH('w)"
  shows "unat (x + 1) = unat x + 1"
  using assms by (simp add: unat_word_ariths)

text \<open>One message, counter by counter.\<close>

lemma message_step_counts:
  fixes w :: "'w::len Worker"
  assumes room: "unat (mMessages (mStats w)) + 1 < 2 ^ LENGTH('w)"
    and le: "mRuns (mStats w) \<le> mMessages (mStats w)"
    and b: "onBeforeMessage w wd = (w1, wd1)"
    and d: "dispatch pull exec m w1 wd1 = (r, w2, wd2)"
  shows "counters_le w w1 \<and> counters_le w1 w2 \<and>
         mRuns (mStats w1) \<le> mMessages (mStats w1) \<and>
         mRuns (mStats w2) \<le> mMessages (mStats w2) \<and>
         unat (mMessages (mStats w2)) = unat (mMessages (mStats w)) + 1"
proof -
  have m1: "mMessages (mStats w1) = mMessages (mStats w) + 1" and r1: "mRuns (mStats w1) = mRuns (mStats w)"
    using onBeforeMessage_stats [of w wd] b by simp_all
  have u1: "unat (mMessages (mStats w1)) = unat (mMessages (mStats w)) + 1"
    using word_succ_no_wrap [OF room] m1 by simp
  have ur: "unat (mRuns (mStats w)) \<le> unat (mMessages (mStats w))"
    using le by (simp add: word_le_nat_alt)
  have m2: "mMessages (mStats w2) = mMessages (mStats w1)"
    using dispatch_stats [of pull exec m w1 wd1] d by simp
  have r2: "mRuns (mStats w2) = mRuns (mStats w1) \<or> mRuns (mStats w2) = mRuns (mStats w1) + 1"
    using dispatch_stats [of pull exec m w1 wd1] d by (simp split: if_splits)
  have u2: "unat (mRuns (mStats w1) + 1) = unat (mRuns (mStats w1)) + 1"
    using room ur r1 by (intro word_succ_no_wrap) simp
  have r2u: "unat (mRuns (mStats w1)) \<le> unat (mRuns (mStats w2)) \<and>
             unat (mRuns (mStats w2)) \<le> unat (mRuns (mStats w1)) + 1"
    using r2 u2 by auto
  show ?thesis
    using u1 ur r1 m2 r2u by (simp add: counters_le_def word_le_nat_alt)
qed

lemma trace_counts:
  fixes w :: "'w::len Worker"
  assumes "unat (mMessages (mStats w)) + length ms < 2 ^ LENGTH('w)"
    and "mRuns (mStats w) \<le> mMessages (mStats w)"
  shows "sorted_wrt counters_le (w # map snd (mq_loop_trace pull exec ms w wd)) \<and>
         (\<forall>s \<in> set (w # map snd (mq_loop_trace pull exec ms w wd)).
            mRuns (mStats s) \<le> mMessages (mStats s))"
  using assms
proof (induction ms arbitrary: w wd)
  case Nil
  then show ?case by simp
next
  case (Cons m ms)
  obtain w1 wd1 where b: "onBeforeMessage w wd = (w1, wd1)" by (cases "onBeforeMessage w wd")
  obtain r w2 wd2 where d: "dispatch pull exec m w1 wd1 = (r, w2, wd2)"
    by (cases "dispatch pull exec m w1 wd1")
  obtain w3 wd3 where a: "onAfterMessage w2 wd2 = (w3, wd3)" by (cases "onAfterMessage w2 wd2")
  have room: "unat (mMessages (mStats w)) + 1 < 2 ^ LENGTH('w)"
    using Cons.prems(1) by simp
  note st = message_step_counts [OF room Cons.prems(2) b d]
  have c01: "counters_le w w1" and c12: "counters_le w1 w2" using st by simp_all
  have c02: "counters_le w w2" using c01 c12 by (rule counters_le_trans)
  show ?case
  proof (cases "r = FINISH")
    case True
    then show ?thesis using b d st c02 Cons.prems(2) by simp
  next
    case False
    have s3: "mMessages (mStats w3) = mMessages (mStats w2) \<and> mRuns (mStats w3) = mRuns (mStats w2)"
      using onAfterMessage_stats [of w2 wd2] a by simp
    have c23: "counters_le w2 w3" using s3 by (simp add: counters_le_def)
    have c13: "counters_le w1 w3" using c12 c23 by (rule counters_le_trans)
    have c03: "counters_le w w3" using c02 c23 by (rule counters_le_trans)
    have "unat (mMessages (mStats w3)) + length ms < 2 ^ LENGTH('w)"
      using st s3 Cons.prems(1) by simp
    moreover have "mRuns (mStats w3) \<le> mMessages (mStats w3)" using st s3 by simp
    ultimately have ih: "sorted_wrt counters_le (w3 # map snd (mq_loop_trace pull exec ms w3 wd3)) \<and>
         (\<forall>s \<in> set (w3 # map snd (mq_loop_trace pull exec ms w3 wd3)).
            mRuns (mStats s) \<le> mMessages (mStats s))"
      by (rule Cons.IH)
    have later: "\<And>x y. counters_le x w3 \<Longrightarrow> y \<in> set (map snd (mq_loop_trace pull exec ms w3 wd3)) \<Longrightarrow>
        counters_le x y"
      using ih by (auto intro: counters_le_trans)
    have tr: "mq_loop_trace pull exec (m # ms) w wd =
        [(Before, w1), (Handled m r, w2), (After, w3)] @ mq_loop_trace pull exec ms w3 wd3"
      using b d a False by simp
    show ?thesis
      unfolding tr
      using ih st c01 c02 c03 c12 c13 c23 later [OF c03] later [OF c13] later [OF c23] Cons.prems(2)
      by (simp add: image_iff)
  qed
qed

lemma mq_loop_trace_final:
  "fst (snd (snd (mq_loop pull exec ms w wd))) = snd (last ((After, w) # mq_loop_trace pull exec ms w wd))"
  by (induction ms arbitrary: w wd) (simp_all split: prod.split)

lemma no_exit_trace_last:
  "EXIT \<notin> set ms \<Longrightarrow>
   mMessages (mStats (snd (last ((After, w) # mq_loop_trace pull exec ms w wd)))) =
     mMessages (mStats w) + of_nat (length ms)"
proof (induction ms arbitrary: w wd)
  case Nil
  then show ?case by simp
next
  case (Cons m ms)
  obtain w1 wd1 where b: "onBeforeMessage w wd = (w1, wd1)" by (cases "onBeforeMessage w wd")
  obtain r w2 wd2 where d: "dispatch pull exec m w1 wd1 = (r, w2, wd2)"
    by (cases "dispatch pull exec m w1 wd1")
  obtain w3 wd3 where a: "onAfterMessage w2 wd2 = (w3, wd3)" by (cases "onAfterMessage w2 wd2")
  have r: "r = CONTINUE" using dispatch_result [of pull exec m w1 wd1] d Cons.prems by auto
  have m3: "mMessages (mStats w3) = mMessages (mStats w) + 1"
    using onBeforeMessage_stats [of w wd] dispatch_stats [of pull exec m w1 wd1]
      onAfterMessage_stats [of w2 wd2] b d a by simp
  have "last ((After, w) # mq_loop_trace pull exec (m # ms) w wd) =
        last ((After, w3) # mq_loop_trace pull exec ms w3 wd3)"
    using b d a r by simp
  then show ?case using Cons.IH [of w3 wd3] Cons.prems m3 by simp
qed

lemma nop_wrap:
  fixes w :: "'w::len Worker"
  assumes z: "mMessages (mStats w) = 0"
  shows "\<not> sorted_wrt counters_le
           (w # map snd (mq_loop_trace pull exec (replicate (2 ^ LENGTH('w)) NOP) w wd))"
proof
  let ?n = "2 ^ LENGTH('w) - 1 :: nat"
  assume s: "sorted_wrt counters_le
           (w # map snd (mq_loop_trace pull exec (replicate (2 ^ LENGTH('w)) NOP) w wd))"
  obtain w1 wd1 where b: "onBeforeMessage w wd = (w1, wd1)" by (cases "onBeforeMessage w wd")
  obtain r w2 wd2 where d: "dispatch pull exec NOP w1 wd1 = (r, w2, wd2)"
    by (cases "dispatch pull exec NOP w1 wd1")
  obtain w3 wd3 where a: "onAfterMessage w2 wd2 = (w3, wd3)" by (cases "onAfterMessage w2 wd2")
  have r: "r = CONTINUE" using dispatch_result [of pull exec NOP w1 wd1] d by simp
  have m1: "mMessages (mStats w1) = 1" using onBeforeMessage_stats [of w wd] b z by simp
  have m3: "mMessages (mStats w3) = 1"
    using m1 dispatch_stats [of pull exec NOP w1 wd1] onAfterMessage_stats [of w2 wd2] d a by simp
  have rep: "replicate (2 ^ LENGTH('w)) NOP = NOP # replicate ?n NOP"
    by (metis Suc_pred' replicate_Suc zero_less_numeral zero_less_power)
  have tr: "mq_loop_trace pull exec (replicate (2 ^ LENGTH('w)) NOP) w wd =
      [(Before, w1), (Handled NOP r, w2), (After, w3)] @ mq_loop_trace pull exec (replicate ?n NOP) w3 wd3"
    unfolding rep using b d a r by simp
  let ?l = "snd (last ((After, w3) # mq_loop_trace pull exec (replicate ?n NOP) w3 wd3))"
  have "?l \<in> set (w3 # map snd (mq_loop_trace pull exec (replicate ?n NOP) w3 wd3))"
    by (metis last_in_set last_map list.discI list.simps(9) snd_conv)
  then have "counters_le w1 ?l" using s unfolding tr by auto
  moreover have "mMessages (mStats ?l) = 1 + of_nat ?n"
    using no_exit_trace_last [of "replicate ?n NOP" w3 pull exec wd3] m3 by simp
  moreover have "(1 + of_nat ?n :: 'w word) = 0"
    by (metis Suc_pred' of_nat_Suc word_of_nat_eq_0_iff zero_less_numeral zero_less_power dvd_refl)
  ultimately show False using m1 by (simp add: counters_le_def)
qed

text \<open>
  The counters as the worker stores them: along every run of the loop that counts fewer
  than \<open>2 ^ w\<close> messages in all (\<open>w\<close> the width of the counters), starting with
  \<open>runs \<le> messages\<close>, neither counter ever decreases and \<open>runs \<le> messages\<close> holds at
  every point. (\<open>nop_wrap\<close> is why the bound is there.)
\<close>

lemma stored_counters_monotone:
  fixes w :: "'w::len Worker"
  assumes "unat (mMessages (mStats w)) + length ms < 2 ^ LENGTH('w)"
    and "mRuns (mStats w) \<le> mMessages (mStats w)"
  shows "sorted_wrt counters_le (w # map snd (mq_loop_trace pull exec ms w wd)) \<and>
         list_all (\<lambda>s. mRuns (mStats s) \<le> mMessages (mStats s))
           (w # map snd (mq_loop_trace pull exec ms w wd))"
  using trace_counts [OF assms, of pull exec wd] by (simp add: list_all_iff)

lemma load_during_same: "load_during a a a a wd = load a wd"
  by (simp add: load_during_def load_def)

lemma stats_at_one_point:
  "i < length ws \<Longrightarrow> stats_during ws i i i i wd = stats (ws ! i) wd"
  by (simp add: stats_during_def load_during_same stats_def)

text \<open>
  C3. The claim asks that \<open>runs \<le> messages\<close> hold of the \<open>stats()\<close> counters at every
  point. A new worker whose pool holds one task is sent one TASK message, and another thread
  calls \<open>stats()\<close> meanwhile: \<open>load\<close> reads \<open>mMessages\<close> before the worker has counted the
  message and \<open>mRuns\<close> after the worker has counted the run, and returns 0 messages and 1
  run.
\<close>

theorem stats_during_TASK_runs_above_messages:
  "(\<lambda>s. (messages s, runs s, runs s \<le> messages s))
     (fst (stats_during
        (WorkLoop_points (\<lambda>e. case e of [] \<Rightarrow> (None, []) | t # ts \<Rightarrow> (Some t, ts)) (\<lambda>t e. e)
           (task (Worker_ctor 0 :: 64 Worker))
           \<lparr>clock = (\<lambda>n. int n), reads = 0, cerr = [], env = [7::nat]\<rparr>)
        0 2 2 2
        \<lparr>clock = (\<lambda>n. int n), reads = 0, cerr = [], env = ()\<rparr>)) = (0, 1, False)"
  by code_simp

section \<open>The state machine of the loop\<close>

lemma machine_trace: "is_idle w \<Longrightarrow> machine w (mq_loop_trace pull exec ms w wd)"
proof (induction ms arbitrary: w wd)
  case Nil
  then show ?case by simp
next
  case (Cons m ms)
  obtain w1 wd1 where b: "onBeforeMessage w wd = (w1, wd1)" by (cases "onBeforeMessage w wd")
  obtain r w2 wd2 where d: "dispatch pull exec m w1 wd1 = (r, w2, wd2)"
    by (cases "dispatch pull exec m w1 wd1")
  obtain w3 wd3 where a: "onAfterMessage w2 wd2 = (w3, wd3)" by (cases "onAfterMessage w2 wd2")
  have a1: "is_active w1" using onBeforeMessage_active [of w wd] b by simp
  have m1: "mMessages (mStats w1) = mMessages (mStats w) + 1"
    using onBeforeMessage_stats [of w wd] b by simp
  have a2: "is_active w2" using dispatch_active [OF a1, of pull exec m wd1] d by simp
  have r: "(r = FINISH) = (m = EXIT)" using dispatch_result [of pull exec m w1 wd1] d by auto
  have i3: "is_idle w3" using onAfterMessage_idle [of w2 wd2] a by simp
  show ?case
  proof (cases r)
    case FINISH
    then show ?thesis using b d Cons.prems a1 m1 a2 r by simp
  next
    case CONTINUE
    then show ?thesis using b d a Cons.prems a1 m1 a2 r Cons.IH [OF i3, of wd3] by simp
  qed
qed

lemma enter_loop_fst:
  "fst (enter_loop w wd) =
   w\<lparr>mStats := (mStats w)\<lparr>mIdle := fst (tc_start (mIdle (mStats w)) wd)\<rparr>, mWorkThread := Looping\<rparr>"
  by (simp add: enter_loop_def split: prod.split)

lemma enter_loop_idle:
  "mStart (mActive (mStats w)) = None \<Longrightarrow> is_idle (fst (enter_loop w wd))"
  using tc_start_started [of "mIdle (mStats w)" wd] by (simp add: enter_loop_fst is_idle_def)

lemma enter_loop_members:
  "mMsgQueue (fst (enter_loop w wd)) = mMsgQueue w \<and>
   mName (fst (enter_loop w wd)) = mName w \<and>
   mId (fst (enter_loop w wd)) = mId w \<and>
   mWorkThread (fst (enter_loop w wd)) = Looping \<and>
   mMessages (mStats (fst (enter_loop w wd))) = mMessages (mStats w) \<and>
   mRuns (mStats (fst (enter_loop w wd))) = mRuns (mStats w) \<and>
   mActive (mStats (fst (enter_loop w wd))) = mActive (mStats w)"
  by (simp_all add: enter_loop_fst)

lemma WorkLoop_stats:
  "mStats (fst (WorkLoop pull exec w wd)) =
   mStats (snd (last ((After, fst (enter_loop w wd)) #
     mq_loop_trace pull exec (mMsgQueue w) (fst (enter_loop w wd)) (snd (enter_loop w wd)))))"
proof -
  obtain w0 wd0 where e: "enter_loop w wd = (w0, wd0)" by (cases "enter_loop w wd")
  obtain rest r w' wd' where l: "mq_loop pull exec (mMsgQueue w) w0 wd0 = (rest, r, w', wd')"
    by (cases "mq_loop pull exec (mMsgQueue w) w0 wd0")
  have q: "mMsgQueue w0 = mMsgQueue w" using enter_loop_members [of w wd] e by simp
  have "mStats (fst (WorkLoop pull exec w wd)) = mStats w'"
    by (simp add: WorkLoop_def in_loop_def e l q)
  then show ?thesis
    using mq_loop_trace_final [of pull exec "mMsgQueue w" w0 wd0] e l by simp
qed

text \<open>
  C5. A worker whose active timer is not running when its thread enters \<open>WorkLoop\<close> (a
  new worker) is idle once the idle timer has been started there, and the run of the loop
  over its mailbox follows the state machine for every message dispatched: before the
  dispatch \<open>onBeforeMessage\<close> has stopped the idle timer, started the active timer and
  counted the message; the worker stays active through the handler; afterwards
  \<open>onAfterMessage\<close> has stopped the active timer and started the idle timer, unless the
  handler returned FINISH, which ends the run. The statistics \<open>WorkLoop\<close> ends with are
  those at the last point of that run.
\<close>

theorem statistics_state_machine:
  assumes "mStart (mActive (mStats w)) = None"
  shows "is_idle (fst (enter_loop w wd)) \<and>
         machine (fst (enter_loop w wd))
           (mq_loop_trace pull exec (mMsgQueue w) (fst (enter_loop w wd)) (snd (enter_loop w wd))) \<and>
         mStats (fst (WorkLoop pull exec w wd)) =
           mStats (snd (last ((After, fst (enter_loop w wd)) #
             mq_loop_trace pull exec (mMsgQueue w) (fst (enter_loop w wd)) (snd (enter_loop w wd)))))"
  using enter_loop_idle [OF assms, of wd] machine_trace WorkLoop_stats by blast

theorem statistics_state_machine_witness:
  "mStart (mActive (mStats ((Worker_ctor 0 :: 64 Worker)\<lparr>mMsgQueue := [TASK, EXIT, NOP]\<rparr>))) = None \<and>
   is_idle (fst (enter_loop ((Worker_ctor 0 :: 64 Worker)\<lparr>mMsgQueue := [TASK, EXIT, NOP]\<rparr>)
     \<lparr>clock = (\<lambda>n. int n), reads = 0, cerr = [], env = [7::nat]\<rparr>)) \<and>
   machine
     (fst (enter_loop ((Worker_ctor 0 :: 64 Worker)\<lparr>mMsgQueue := [TASK, EXIT, NOP]\<rparr>)
       \<lparr>clock = (\<lambda>n. int n), reads = 0, cerr = [], env = [7::nat]\<rparr>))
     (mq_loop_trace (\<lambda>e. case e of [] \<Rightarrow> (None, []) | t # ts \<Rightarrow> (Some t, ts)) (\<lambda>t e. e)
       [TASK, EXIT, NOP]
       (fst (enter_loop ((Worker_ctor 0 :: 64 Worker)\<lparr>mMsgQueue := [TASK, EXIT, NOP]\<rparr>)
         \<lparr>clock = (\<lambda>n. int n), reads = 0, cerr = [], env = [7::nat]\<rparr>))
       (snd (enter_loop ((Worker_ctor 0 :: 64 Worker)\<lparr>mMsgQueue := [TASK, EXIT, NOP]\<rparr>)
         \<lparr>clock = (\<lambda>n. int n), reads = 0, cerr = [], env = [7::nat]\<rparr>))) \<and>
   map fst
     (mq_loop_trace (\<lambda>e. case e of [] \<Rightarrow> (None, []) | t # ts \<Rightarrow> (Some t, ts)) (\<lambda>t e. e)
       [TASK, EXIT, NOP]
       (fst (enter_loop ((Worker_ctor 0 :: 64 Worker)\<lparr>mMsgQueue := [TASK, EXIT, NOP]\<rparr>)
         \<lparr>clock = (\<lambda>n. int n), reads = 0, cerr = [], env = [7::nat]\<rparr>))
       (snd (enter_loop ((Worker_ctor 0 :: 64 Worker)\<lparr>mMsgQueue := [TASK, EXIT, NOP]\<rparr>)
         \<lparr>clock = (\<lambda>n. int n), reads = 0, cerr = [], env = [7::nat]\<rparr>))) =
     [Before, Handled TASK CONTINUE, After, Before, Handled EXIT FINISH]"
proof -
  let ?w = "(Worker_ctor 0 :: 64 Worker)\<lparr>mMsgQueue := [TASK, EXIT, NOP]\<rparr>"
  let ?wd = "\<lparr>clock = (\<lambda>n. int n), reads = 0, cerr = [], env = [7::nat]\<rparr>"
  have h: "mStart (mActive (mStats ?w)) = None"
    by (simp add: Worker_ctor_def Worker_init_def set_name_def AtomicStats_init_def TimeCounter_init_def)
  have q: "mMsgQueue ?w = [TASK, EXIT, NOP]" by simp
  note t = statistics_state_machine [OF h, of ?wd
      "\<lambda>e. case e of [] \<Rightarrow> (None, []) | t # ts \<Rightarrow> (Some t, ts)" "\<lambda>t e. e", unfolded q]
  have v: "map fst
     (mq_loop_trace (\<lambda>e. case e of [] \<Rightarrow> (None, []) | t # ts \<Rightarrow> (Some t, ts)) (\<lambda>t e. e)
       [TASK, EXIT, NOP] (fst (enter_loop ?w ?wd)) (snd (enter_loop ?w ?wd))) =
     [Before, Handled TASK CONTINUE, After, Before, Handled EXIT FINISH]"
    by code_simp
  show ?thesis using h t v by simp
qed

section \<open>Destruction\<close>

lemma mq_loop_result:
  "fst (snd (mq_loop pull exec ms w wd)) = (if EXIT \<in> set ms then FINISH else CONTINUE)"
proof (induction ms arbitrary: w wd)
  case Nil
  then show ?case by simp
next
  case (Cons m ms)
  obtain w1 wd1 where b: "onBeforeMessage w wd = (w1, wd1)" by (cases "onBeforeMessage w wd")
  obtain r w2 wd2 where d: "dispatch pull exec m w1 wd1 = (r, w2, wd2)"
    by (cases "dispatch pull exec m w1 wd1")
  obtain w3 wd3 where a: "onAfterMessage w2 wd2 = (w3, wd3)" by (cases "onAfterMessage w2 wd2")
  have r: "r = (if m = EXIT then FINISH else CONTINUE)"
    using dispatch_result [of pull exec m w1 wd1] d by simp
  show ?case using b d a r Cons.IH [of w3 wd3] by auto
qed

lemma in_loop_thread:
  "mWorkThread (fst (in_loop pull exec w wd)) = (if EXIT \<in> set (mMsgQueue w) then Returned else Looping)"
  using mq_loop_result [of pull exec "mMsgQueue w" w wd]
  by (simp add: in_loop_def case_prod_beta)

lemma thread_run_thread:
  "mWorkThread w = Spawned \<or> mWorkThread w = Looping \<Longrightarrow>
   mWorkThread (fst (thread_run pull exec w wd)) =
     (if EXIT \<in> set (mMsgQueue w) then Returned else Looping)"
  using in_loop_thread [of pull exec w wd]
    in_loop_thread [of pull exec "fst (enter_loop w wd)" "snd (enter_loop w wd)"]
    enter_loop_members [of w wd]
  by (auto simp: thread_run_def WorkLoop_def case_prod_beta)

lemma join_None_iff:
  "mWorkThread w = Spawned \<or> mWorkThread w = Looping \<Longrightarrow>
   join pull exec w wd = None \<longleftrightarrow> EXIT \<notin> set (mMsgQueue w)"
  using thread_run_thread [of w pull exec wd]
  by (simp add: join_def case_prod_beta)

lemma join_joined: "join pull exec w wd = Some (w', wd') \<Longrightarrow> mWorkThread w' = Joined"
  by (auto simp: join_def split: prod.splits if_splits)

lemma mq_loop_rest:
  "fst (mq_loop pull exec ms w wd) =
     (if EXIT \<in> set ms then tl (dropWhile (\<lambda>m. m \<noteq> EXIT) ms) else [])"
proof (induction ms arbitrary: w wd)
  case Nil
  then show ?case by simp
next
  case (Cons m ms)
  obtain w1 wd1 where b: "onBeforeMessage w wd = (w1, wd1)" by (cases "onBeforeMessage w wd")
  obtain r w2 wd2 where d: "dispatch pull exec m w1 wd1 = (r, w2, wd2)"
    by (cases "dispatch pull exec m w1 wd1")
  obtain w3 wd3 where a: "onAfterMessage w2 wd2 = (w3, wd3)" by (cases "onAfterMessage w2 wd2")
  have r: "r = (if m = EXIT then FINISH else CONTINUE)"
    using dispatch_result [of pull exec m w1 wd1] d by simp
  show ?case using b d a r Cons.IH [of w3 wd3] by auto
qed

lemma mq_loop_messages:
  "mMessages (mStats (fst (snd (snd (mq_loop pull exec ms w wd))))) =
     mMessages (mStats w) +
     of_nat (length (takeWhile (\<lambda>m. m \<noteq> EXIT) ms) + (if EXIT \<in> set ms then 1 else 0))"
proof (induction ms arbitrary: w wd)
  case Nil
  then show ?case by simp
next
  case (Cons m ms)
  obtain w1 wd1 where b: "onBeforeMessage w wd = (w1, wd1)" by (cases "onBeforeMessage w wd")
  obtain r w2 wd2 where d: "dispatch pull exec m w1 wd1 = (r, w2, wd2)"
    by (cases "dispatch pull exec m w1 wd1")
  obtain w3 wd3 where a: "onAfterMessage w2 wd2 = (w3, wd3)" by (cases "onAfterMessage w2 wd2")
  have r: "r = (if m = EXIT then FINISH else CONTINUE)"
    using dispatch_result [of pull exec m w1 wd1] d by simp
  have m2: "mMessages (mStats w2) = mMessages (mStats w) + 1"
    using onBeforeMessage_stats [of w wd] dispatch_stats [of pull exec m w1 wd1] b d by simp
  have m3: "mMessages (mStats w3) = mMessages (mStats w) + 1"
    using m2 onAfterMessage_stats [of w2 wd2] a by simp
  show ?case
  proof (cases "m = EXIT")
    case True
    then show ?thesis using b d r m2 by simp
  next
    case False
    then show ?thesis using b d a r m3 Cons.IH [of w3 wd3] by simp
  qed
qed

lemma idle_not_active: "is_active w \<Longrightarrow> \<not> is_idle w"
  by (simp add: is_idle_def is_active_def)

lemma mq_loop_idle:
  "is_idle w \<Longrightarrow> is_idle (fst (snd (snd (mq_loop pull exec ms w wd)))) \<longleftrightarrow> EXIT \<notin> set ms"
proof (induction ms arbitrary: w wd)
  case Nil
  then show ?case by simp
next
  case (Cons m ms)
  obtain w1 wd1 where b: "onBeforeMessage w wd = (w1, wd1)" by (cases "onBeforeMessage w wd")
  obtain r w2 wd2 where d: "dispatch pull exec m w1 wd1 = (r, w2, wd2)"
    by (cases "dispatch pull exec m w1 wd1")
  obtain w3 wd3 where a: "onAfterMessage w2 wd2 = (w3, wd3)" by (cases "onAfterMessage w2 wd2")
  have r: "r = (if m = EXIT then FINISH else CONTINUE)"
    using dispatch_result [of pull exec m w1 wd1] d by simp
  have a1: "is_active w1" using onBeforeMessage_active [of w wd] b by simp
  have a2: "is_active w2" using dispatch_active [OF a1, of pull exec m wd1] d by simp
  have i3: "is_idle w3" using onAfterMessage_idle [of w2 wd2] a by simp
  show ?case
  proof (cases "m = EXIT")
    case True
    then show ?thesis using b d r idle_not_active [OF a2] by simp
  next
    case False
    then show ?thesis using b d a r Cons.IH [OF i3, of wd3] by auto
  qed
qed

lemma in_loop_effect:
  "mWorkThread (fst (in_loop pull exec w wd)) =
     (if EXIT \<in> set (mMsgQueue w) then Returned else Looping) \<and>
   mMsgQueue (fst (in_loop pull exec w wd)) =
     (if EXIT \<in> set (mMsgQueue w) then tl (dropWhile (\<lambda>m. m \<noteq> EXIT) (mMsgQueue w)) else []) \<and>
   mStats (fst (in_loop pull exec w wd)) =
     mStats (fst (snd (snd (mq_loop pull exec (mMsgQueue w) w wd))))"
  using mq_loop_result [of pull exec "mMsgQueue w" w wd] mq_loop_rest [of pull exec "mMsgQueue w" w wd]
  by (simp add: in_loop_def case_prod_beta)

lemma is_idle_cong: "mStats a = mStats b \<Longrightarrow> is_idle a = is_idle b"
  by (simp add: is_idle_def)

lemma thread_run_effect:
  assumes "mWorkThread w = Spawned \<or> mWorkThread w = Looping"
  shows "mWorkThread (fst (thread_run pull exec w wd)) =
           (if EXIT \<in> set (mMsgQueue w) then Returned else Looping) \<and>
         mMsgQueue (fst (thread_run pull exec w wd)) =
           (if EXIT \<in> set (mMsgQueue w) then tl (dropWhile (\<lambda>m. m \<noteq> EXIT) (mMsgQueue w)) else []) \<and>
         mMessages (mStats (fst (thread_run pull exec w wd))) =
           mMessages (mStats w) +
           of_nat (length (takeWhile (\<lambda>m. m \<noteq> EXIT) (mMsgQueue w)) +
                   (if EXIT \<in> set (mMsgQueue w) then 1 else 0))"
proof -
  let ?w0 = "fst (enter_loop w wd)" and ?wd0 = "snd (enter_loop w wd)"
  note e = enter_loop_members [of w wd]
  from assms show ?thesis
  proof
    assume s: "mWorkThread w = Spawned"
    then have t: "thread_run pull exec w wd = in_loop pull exec ?w0 ?wd0"
      by (simp add: thread_run_def WorkLoop_def case_prod_beta)
    show ?thesis
      unfolding t
      using in_loop_effect [of pull exec ?w0 ?wd0]
        mq_loop_messages [of pull exec "mMsgQueue w" ?w0 ?wd0] e
      by simp
  next
    assume l: "mWorkThread w = Looping"
    then have t: "thread_run pull exec w wd = in_loop pull exec w wd"
      by (simp add: thread_run_def)
    show ?thesis
      unfolding t
      using in_loop_effect [of pull exec w wd] mq_loop_messages [of pull exec "mMsgQueue w" w wd]
      by simp
  qed
qed

lemma fold_send:
  "mMsgQueue (fold send ms w) = mMsgQueue w @ ms \<and>
   mStats (fold send ms w) = mStats w \<and>
   mWorkThread (fold send ms w) = mWorkThread w \<and>
   mName (fold send ms w) = mName w \<and>
   mId (fold send ms w) = mId w"
  by (induction ms arbitrary: w) (simp_all add: send_def mq_send_def)

lemma Worker_ctor_thread_idle:
  fixes w :: "'w::len Worker"
  assumes w: "w = fold send ms (Worker_ctor i)"
  shows "is_idle (fst (thread_run pull exec w wd)) \<longleftrightarrow> EXIT \<notin> set ms"
proof -
  let ?w0 = "fst (enter_loop w wd)" and ?wd0 = "snd (enter_loop w wd)"
  have c: "mMsgQueue (Worker_ctor i :: 'w Worker) = [] \<and>
      mStats (Worker_ctor i :: 'w Worker) = AtomicStats_init \<and>
      mWorkThread (Worker_ctor i :: 'w Worker) = Spawned"
    by (simp add: Worker_ctor_members)
  have m: "mMsgQueue w = ms" "mStats w = AtomicStats_init" "mWorkThread w = Spawned"
    unfolding w using fold_send [of ms "Worker_ctor i :: 'w Worker"] c by simp_all
  have "mStart (mActive (mStats w)) = None"
    using m by (simp add: AtomicStats_init_def TimeCounter_init_def)
  then have i0: "is_idle ?w0" by (rule enter_loop_idle)
  have t: "thread_run pull exec w wd = in_loop pull exec ?w0 ?wd0"
    using m by (simp add: thread_run_def WorkLoop_def case_prod_beta)
  have q: "mMsgQueue ?w0 = ms" using enter_loop_members [of w wd] m by simp
  have "is_idle (fst (in_loop pull exec ?w0 ?wd0)) =
        is_idle (fst (snd (snd (mq_loop pull exec (mMsgQueue ?w0) ?w0 ?wd0))))"
    using in_loop_effect [of pull exec ?w0 ?wd0] by (intro is_idle_cong) simp
  then show ?thesis
    unfolding t using mq_loop_idle [OF i0, of pull exec ms ?wd0] q by simp
qed

lemma thread_run_Returned: "mWorkThread w = Returned \<Longrightarrow> thread_run pull exec w wd = (w, wd)"
  by (simp add: thread_run_def)

lemma takeWhile_until_EXIT:
  "takeWhile (\<lambda>m. m \<noteq> EXIT) (q @ [EXIT]) = takeWhile (\<lambda>m. m \<noteq> EXIT) q"
  by (induction q) auto

text \<open>
  C7. \<open>exit()\<close> is exactly \<open>send(EXIT)\<close>, which puts EXIT at the end of the worker's own
  mailbox; the destructor is \<open>exit()\<close> followed by the join. For a worker whose thread has
  not been joined, the thread then runs until it has returned from \<open>WorkLoop\<close>: a thread that
  had not returned yet handles every message up to the first EXIT, and nothing after it. The
  join returns with the worker as the thread left it, the thread joined. Without the EXIT
  (none in the mailbox, thread not yet returned) the join would not return.
\<close>

theorem dtor_sends_exit_then_joins:
  assumes "mWorkThread w = Spawned \<or> mWorkThread w = Looping \<or> mWorkThread w = Returned"
  shows "exit w = send EXIT w \<and>
         mMsgQueue (exit w) = mMsgQueue w @ [EXIT] \<and>
         Worker_dtor pull exec w wd = join pull exec (exit w) wd \<and>
         mWorkThread (fst (thread_run pull exec (exit w) wd)) = Returned \<and>
         Worker_dtor pull exec w wd =
           Some ((fst (thread_run pull exec (exit w) wd))\<lparr>mWorkThread := Joined\<rparr>,
                 snd (thread_run pull exec (exit w) wd)) \<and>
         mMessages (mStats (fst (thread_run pull exec (exit w) wd))) =
           (if mWorkThread w = Returned then mMessages (mStats w)
            else mMessages (mStats w) +
                 of_nat (length (takeWhile (\<lambda>m. m \<noteq> EXIT) (mMsgQueue w)) + 1)) \<and>
         (\<exists>w' wd'. Worker_dtor pull exec w wd = Some (w', wd') \<and> mWorkThread w' = Joined) \<and>
         (mWorkThread w \<noteq> Returned \<and> EXIT \<notin> set (mMsgQueue w) \<longrightarrow> join pull exec w wd = None)"
proof -
  have x: "exit w = send EXIT w" by (simp add: exit_def)
  have q: "mMsgQueue (exit w) = mMsgQueue w @ [EXIT]" and t: "mWorkThread (exit w) = mWorkThread w"
    and s: "mStats (exit w) = mStats w"
    by (simp_all add: exit_def send_def mq_send_def)
  have d: "Worker_dtor pull exec w wd = join pull exec (exit w) wd" by (simp add: Worker_dtor_def)
  have r: "mWorkThread (fst (thread_run pull exec (exit w) wd)) = Returned"
  proof (cases "mWorkThread w = Returned")
    case True
    then show ?thesis using t by (simp add: thread_run_Returned)
  next
    case False
    then have "mWorkThread (exit w) = Spawned \<or> mWorkThread (exit w) = Looping"
      using assms t by simp
    from thread_run_effect [OF this, of pull exec wd] show ?thesis using q by simp
  qed
  have j: "Worker_dtor pull exec w wd =
           Some ((fst (thread_run pull exec (exit w) wd))\<lparr>mWorkThread := Joined\<rparr>,
                 snd (thread_run pull exec (exit w) wd))"
    using r by (simp add: d join_def case_prod_beta)
  have tw: "takeWhile (\<lambda>m. m \<noteq> EXIT) (mMsgQueue w @ [EXIT]) = takeWhile (\<lambda>m. m \<noteq> EXIT) (mMsgQueue w)"
    by (rule takeWhile_until_EXIT)
  have c: "mMessages (mStats (fst (thread_run pull exec (exit w) wd))) =
           (if mWorkThread w = Returned then mMessages (mStats w)
            else mMessages (mStats w) +
                 of_nat (length (takeWhile (\<lambda>m. m \<noteq> EXIT) (mMsgQueue w)) + 1))"
  proof (cases "mWorkThread w = Returned")
    case True
    then show ?thesis using t s by (simp add: thread_run_Returned)
  next
    case False
    then have "mWorkThread (exit w) = Spawned \<or> mWorkThread (exit w) = Looping"
      using assms t by simp
    from thread_run_effect [OF this, of pull exec wd] show ?thesis
      using False q s tw by simp
  qed
  have e: "\<exists>w' wd'. Worker_dtor pull exec w wd = Some (w', wd') \<and> mWorkThread w' = Joined"
    unfolding j by simp
  have n: "mWorkThread w \<noteq> Returned \<and> EXIT \<notin> set (mMsgQueue w) \<longrightarrow> join pull exec w wd = None"
    using join_None_iff [of w pull exec wd] assms by auto
  show ?thesis
    by (rule conjI [OF x conjI [OF q conjI [OF d conjI [OF r conjI [OF j conjI [OF c conjI [OF e n]]]]]]])
qed

theorem dtor_sends_exit_then_joins_witness:
  "mWorkThread (task (Worker_ctor 0 :: 64 Worker)) = Spawned \<and>
   mMsgQueue (exit (task (Worker_ctor 0 :: 64 Worker))) = [TASK, EXIT] \<and>
   mWorkThread (fst (thread_run (\<lambda>e. case e of [] \<Rightarrow> (None, []) | t # ts \<Rightarrow> (Some t, ts)) (\<lambda>t e. e)
     (exit (task (Worker_ctor 0 :: 64 Worker)))
     \<lparr>clock = (\<lambda>n. int n), reads = 0, cerr = [], env = [7::nat]\<rparr>)) = Returned \<and>
   map_option (\<lambda>(w, wd). (mWorkThread w, mMessages (mStats w), mRuns (mStats w), mMsgQueue w, env wd))
     (Worker_dtor (\<lambda>e. case e of [] \<Rightarrow> (None, []) | t # ts \<Rightarrow> (Some t, ts)) (\<lambda>t e. e)
        (task (Worker_ctor 0 :: 64 Worker))
        \<lparr>clock = (\<lambda>n. int n), reads = 0, cerr = [], env = [7::nat]\<rparr>) =
     Some (Joined, 2, 1, [], []) \<and>
   join (\<lambda>e. case e of [] \<Rightarrow> (None, []) | t # ts \<Rightarrow> (Some t, ts)) (\<lambda>t e. e)
        (task (Worker_ctor 0 :: 64 Worker))
        \<lparr>clock = (\<lambda>n. int n), reads = 0, cerr = [], env = [7::nat]\<rparr> = None"
proof -
  let ?w = "task (Worker_ctor 0 :: 64 Worker)"
  let ?pull = "\<lambda>e :: nat list. case e of [] \<Rightarrow> (None, []) | t # ts \<Rightarrow> (Some t, ts)"
  let ?exec = "\<lambda>(t :: nat) e :: nat list. e"
  let ?wd = "\<lparr>clock = (\<lambda>n. int n), reads = 0, cerr = [], env = [7::nat]\<rparr>"
  have m: "mWorkThread ?w = Spawned" and q: "mMsgQueue ?w = [TASK]"
    by (simp_all add: task_def send_def mq_send_def Worker_ctor_members)
  from m have h: "mWorkThread ?w = Spawned \<or> mWorkThread ?w = Looping \<or> mWorkThread ?w = Returned"
    by simp
  note t = dtor_sends_exit_then_joins [OF h, of ?pull ?exec ?wd]
  have "mMsgQueue (exit ?w) = mMsgQueue ?w @ [EXIT]" using t by (elim conjE)
  then have b: "mMsgQueue (exit ?w) = [TASK, EXIT]" unfolding q by simp
  have r: "mWorkThread (fst (thread_run ?pull ?exec (exit ?w) ?wd)) = Returned"
    using t by (elim conjE)
  have v: "map_option (\<lambda>(w, wd). (mWorkThread w, mMessages (mStats w), mRuns (mStats w), mMsgQueue w, env wd))
     (Worker_dtor ?pull ?exec ?w ?wd) = Some (Joined, 2, 1, [], [])"
    by code_simp
  have "mWorkThread ?w \<noteq> Returned \<and> EXIT \<notin> set (mMsgQueue ?w)"
    using m q by simp
  moreover have "mWorkThread ?w \<noteq> Returned \<and> EXIT \<notin> set (mMsgQueue ?w) \<longrightarrow>
      join ?pull ?exec ?w ?wd = None"
    using t by (elim conjE)
  ultimately have d: "join ?pull ?exec ?w ?wd = None" by (rule rev_mp)
  show ?thesis by (rule conjI [OF m conjI [OF b conjI [OF r conjI [OF v d]]]])
qed

section \<open>Construction\<close>

lemma Worker_ctor_enters_idle:
  fixes w :: "'w::len Worker"
  assumes w: "w = Worker_ctor i"
  shows "mName w = ''worker['' @ dec_int i @ '']'' \<and>
         c_string (the (name w)) = ''worker['' @ dec_int i @ '']'' \<and>
         id_of w = i \<and>
         mWorkThread w = Spawned \<and>
         thread_run pull exec w wd = WorkLoop pull exec w wd \<and>
         WorkLoop pull exec w wd = in_loop pull exec (fst (enter_loop w wd)) (snd (enter_loop w wd)) \<and>
         is_idle (fst (enter_loop w wd)) \<and>
         mStart (mIdle (mStats (fst (enter_loop w wd)))) = Some (clock wd (reads wd)) \<and>
         mWorkThread (fst (enter_loop w wd)) = Looping \<and>
         mMsgQueue (fst (enter_loop w wd)) = [] \<and>
         mMessages (mStats (fst (enter_loop w wd))) = 0 \<and>
         mRuns (mStats (fst (enter_loop w wd))) = 0"
proof -
  have m: "mId w = i \<and> mName w = default_name i \<and>
   mStats w = AtomicStats_init \<and> mMsgQueue w = [] \<and> mWorkThread w = Spawned"
    unfolding w by (rule Worker_ctor_members)
  have n: "c_string (the (name w)) = mName w"
    using c_string_terminated [OF default_name_no_NUL [of i]] m by (simp add: name_def)
  have a: "mStart (mActive (mStats w)) = None"
    using m by (simp add: AtomicStats_init_def TimeCounter_init_def)
  have s: "mStart (mIdle (mStats (fst (enter_loop w wd)))) = Some (clock wd (reads wd))"
    by (simp add: enter_loop_fst tc_start_def now_def)
  show ?thesis
    using m n s enter_loop_idle [OF a, of wd] enter_loop_members [of w wd]
    by (simp add: default_name_def id_of_def thread_run_def WorkLoop_def case_prod_beta AtomicStats_init_def)
qed

text \<open>
  C6. For every id, the constructed worker is named \<open>worker[<id>]\<close> and has its thread
  created at once, with \<open>WorkLoop\<close> as the thread's body; \<open>WorkLoop\<close> starts the idle timer
  and only then runs the mailbox loop, so that the worker is idle, with an empty mailbox and
  nothing counted, before the first message is awaited. Whatever messages are then sent to
  it, the thread handles them in order up to the first EXIT: it has counted each of them,
  has returned if there was an EXIT (leaving the messages after it in the mailbox), and
  otherwise waits in the loop, idle, with the mailbox empty.
\<close>

theorem Worker_ctor_names_and_spawns:
  "mName (Worker_ctor i :: 'w::len Worker) = ''worker['' @ dec_int i @ '']'' \<and>
   c_string (the (name (Worker_ctor i :: 'w Worker))) = ''worker['' @ dec_int i @ '']'' \<and>
   id_of (Worker_ctor i :: 'w Worker) = i \<and>
   mWorkThread (Worker_ctor i :: 'w Worker) = Spawned \<and>
   thread_run pull exec (Worker_ctor i :: 'w Worker) wd = WorkLoop pull exec (Worker_ctor i) wd \<and>
   WorkLoop pull exec (Worker_ctor i :: 'w Worker) wd =
     in_loop pull exec (fst (enter_loop (Worker_ctor i :: 'w Worker) wd))
       (snd (enter_loop (Worker_ctor i :: 'w Worker) wd)) \<and>
   is_idle (fst (enter_loop (Worker_ctor i :: 'w Worker) wd)) \<and>
   mStart (mIdle (mStats (fst (enter_loop (Worker_ctor i :: 'w Worker) wd)))) =
     Some (clock wd (reads wd)) \<and>
   mWorkThread (fst (enter_loop (Worker_ctor i :: 'w Worker) wd)) = Looping \<and>
   mMsgQueue (fst (enter_loop (Worker_ctor i :: 'w Worker) wd)) = [] \<and>
   mMessages (mStats (fst (enter_loop (Worker_ctor i :: 'w Worker) wd))) = 0 \<and>
   mRuns (mStats (fst (enter_loop (Worker_ctor i :: 'w Worker) wd))) = 0 \<and>
   mWorkThread (fst (thread_run pull exec (fold send ms (Worker_ctor i :: 'w Worker)) wd)) =
     (if EXIT \<in> set ms then Returned else Looping) \<and>
   mMsgQueue (fst (thread_run pull exec (fold send ms (Worker_ctor i :: 'w Worker)) wd)) =
     (if EXIT \<in> set ms then tl (dropWhile (\<lambda>m. m \<noteq> EXIT) ms) else []) \<and>
   mMessages (mStats (fst (thread_run pull exec (fold send ms (Worker_ctor i :: 'w Worker)) wd))) =
     of_nat (length (takeWhile (\<lambda>m. m \<noteq> EXIT) ms) + (if EXIT \<in> set ms then 1 else 0)) \<and>
   is_idle (fst (thread_run pull exec (fold send ms (Worker_ctor i :: 'w Worker)) wd)) =
     (EXIT \<notin> set ms)"
proof -
  let ?w = "fold send ms (Worker_ctor i :: 'w Worker)"
  have c: "mMsgQueue (Worker_ctor i :: 'w Worker) = [] \<and>
      mStats (Worker_ctor i :: 'w Worker) = AtomicStats_init \<and>
      mWorkThread (Worker_ctor i :: 'w Worker) = Spawned"
    by (simp add: Worker_ctor_members)
  have m: "mMsgQueue ?w = ms" "mMessages (mStats ?w) = 0" "mWorkThread ?w = Spawned"
    using fold_send [of ms "Worker_ctor i :: 'w Worker"] c by (simp_all add: AtomicStats_init_def)
  have s: "mWorkThread ?w = Spawned \<or> mWorkThread ?w = Looping" using m by simp
  note e = thread_run_effect [OF s, of pull exec wd, unfolded m]
  have n: "mWorkThread (fst (thread_run pull exec ?w wd)) =
     (if EXIT \<in> set ms then Returned else Looping) \<and>
   mMsgQueue (fst (thread_run pull exec ?w wd)) =
     (if EXIT \<in> set ms then tl (dropWhile (\<lambda>m. m \<noteq> EXIT) ms) else []) \<and>
   mMessages (mStats (fst (thread_run pull exec ?w wd))) =
     of_nat (length (takeWhile (\<lambda>m. m \<noteq> EXIT) ms) + (if EXIT \<in> set ms then 1 else 0)) \<and>
   is_idle (fst (thread_run pull exec ?w wd)) = (EXIT \<notin> set ms)"
    using e Worker_ctor_thread_idle [OF refl, of pull exec ms i wd, where 'w = 'w] by simp
  show ?thesis
    using Worker_ctor_enters_idle [OF refl, of i pull exec wd, where 'w = 'w] n by simp
qed

lemma Worker_thread_example:
  "(\<lambda>(w, wd). (mWorkThread w, mMessages (mStats w), mRuns (mStats w), mMsgQueue w, env wd))
     (thread_run (\<lambda>(q, l). case q of [] \<Rightarrow> (None, (q, l)) | t # ts \<Rightarrow> (Some t, (ts, l)))
        (\<lambda>t (q, l). (q, l @ [t]))
        (fold send [NOP, TASK, TASK, EXIT, NOP] (Worker_ctor 0 :: 64 Worker))
        \<lparr>clock = (\<lambda>n. int n), reads = 0, cerr = [], env = ([7::nat], [] :: nat list)\<rparr>) =
   (Returned, 4, 1, [NOP], ([], [7]))"
  by code_simp

section \<open>The dump\<close>










lemma onDump_example:
  "cerr (snd (thread_run (\<lambda>e::unit. (None :: unit option, e)) (\<lambda>t e. e)
      (dump (task (Worker_ctor 3 :: 64 Worker)))
      \<lparr>clock = (\<lambda>n. 5 * int n), reads = 0, cerr = [], env = ()\<rparr>)) =
   [''Thread: '', ''worker[3]'', endl,
    ''Number of tasks ran: '', ''0'', endl,
    ''Number of messages processed: '', ''2'', endl,
    ''Time active: '', ''10'', '' milliseconds'', endl,
    ''Time idle: '', ''10'', '' milliseconds'', endl]"
  by code_simp

lemma two_dumps_example:
  "map fst (stream (dump_run (\<lambda>t n. (''w'', \<lparr>messages = 0, runs = 0, idle = 0, active = 0\<rparr> :: 64 Stats))
      (concat (replicate 19 [InDump 0, InDump 1]) @ replicate 18 (InDump 1)) Dumping_init)) =
   replicate 17 0 @ replicate 17 1"
  by code_simp

section \<open>The priority domain\<close>

text \<open>
  The constants of task.h in the 8-bit domain: \<open>MinPriority = 0 < DefaultPriority = 127 <
  MaxPriority = 255\<close>, and every priority lies between the first and the last.
\<close>

lemma Priority_order:
  fixes p :: Priority
  shows "unat MinPriority = 0 \<and> unat DefaultPriority = 127 \<and> unat MaxPriority = 255 \<and>
         MinPriority < DefaultPriority \<and> DefaultPriority < MaxPriority \<and>
         MinPriority \<le> p \<and> p \<le> MaxPriority"
proof -
  have "unat p < 2 ^ LENGTH(8)" by (rule unsigned_less)
  then have "p \<le> 255" by (simp add: word_le_nat_alt)
  then show ?thesis
    by (simp add: MinPriority_def DefaultPriority_def MaxPriority_def)
qed

end
